theory Spec2Isabelle
  imports Main "HOL-Library.Word" "HOL-Library.AList"
begin

section \<open>Datagram tracker: testbed-5G-latency/dl-latency-udp/client.cpp\<close>

text \<open>
  The wire record \<^verbatim>\<open>struct Packet\<close>. The \<^verbatim>\<open>data\<close> array is never read by the
  client and is left out.
\<close>

record Packet =
  timestamp :: "64 word"
  packet_id :: "32 word"
  total_packets :: "32 word"
  request_id :: "32 word"
  total_requests :: "32 word"
  data_size :: "32 word"

text \<open>
  \<^verbatim>\<open>struct RequestStats\<close>. The member \<^verbatim>\<open>std::map<int, bool> received_packets\<close> is an
  association list with distinct keys; its \<^verbatim>\<open>size()\<close> is the length of the list. The
  keys are the 32-bit patterns of the \<^verbatim>\<open>int\<close> keys (the conversion from
  \<^verbatim>\<open>uint32_t\<close> is a bijection), so a key is a \<open>32 word\<close>.
\<close>

record RequestStats =
  first_packet_send_time :: "64 word"
  first_packet_recv_time :: "64 word"
  last_packet_recv_time :: "64 word"
  is_complete :: bool
  received_packets :: "(32 word \<times> bool) list"

text \<open>The default member initialisers: \<^verbatim>\<open>RequestStats()\<close>.\<close>

definition RequestStats_init :: RequestStats where
  "RequestStats_init =
     \<lparr>first_packet_send_time = 0, first_packet_recv_time = 0, last_packet_recv_time = 0,
      is_complete = False, received_packets = []\<rparr>"

text \<open>
  The global \<^verbatim>\<open>std::map<int, RequestStats> requests\<close>, again an association list with
  distinct keys; \<open>map_of\<close> is \<^verbatim>\<open>find\<close>. The order of the list is the order of
  insertion; the iteration of \<^verbatim>\<open>write_results\<close> sorts by the signed key.
\<close>

type_synonym requests_map = "(32 word \<times> RequestStats) list"

text \<open>
  \<^verbatim>\<open>requests[k]\<close>: the entry of \<open>k\<close>, a default-constructed one when \<open>k\<close> is absent
  (\<^verbatim>\<open>operator[]\<close> inserts it).
\<close>

definition at_key :: "requests_map \<Rightarrow> 32 word \<Rightarrow> RequestStats" where
  "at_key reqs k = (case map_of reqs k of None \<Rightarrow> RequestStats_init | Some r \<Rightarrow> r)"

text \<open>An assignment through \<^verbatim>\<open>requests[k]\<close>: \<open>f\<close> is the change made to the entry.\<close>

definition assign :: "32 word \<Rightarrow> (RequestStats \<Rightarrow> RequestStats) \<Rightarrow> requests_map \<Rightarrow> requests_map" where
  "assign k f reqs = AList.update k (f (at_key reqs k)) reqs"

text \<open>
  The globals \<^verbatim>\<open>running\<close> and \<^verbatim>\<open>requests\<close> and the locals \<^verbatim>\<open>highest_request_id\<close>
  and \<^verbatim>\<open>total_requests\<close> of \<^verbatim>\<open>main\<close> (the local is \<open>cur_total_requests\<close> here,
  the name \<open>total_requests\<close> being the packet's field).
\<close>

record client =
  running :: bool
  requests :: requests_map
  highest_request_id :: "32 word"
  cur_total_requests :: "32 word"

definition client_init :: client where
  "client_init = \<lparr>running = True, requests = [], highest_request_id = 0, cur_total_requests = 0\<rparr>"

text \<open>
  The loop \<^verbatim>\<open>for (uint32_t i = 0; i < total_requests; i++)\<close> of lines 200 to 205, started
  at \<open>i\<close>: the value of \<^verbatim>\<open>all_complete\<close> when the loop is left.
\<close>

function all_complete_from :: "32 word \<Rightarrow> 32 word \<Rightarrow> requests_map \<Rightarrow> bool" where
  "all_complete_from i n reqs =
     (if i < n then
        (if map_of reqs i = None \<or> \<not> is_complete (at_key reqs i) then False
         else all_complete_from (i + 1) n reqs)
      else True)"
  by pat_completeness auto
termination
proof (relation "measure (\<lambda>(i, n, reqs). unat n - unat i)")
  show "wf (measure (\<lambda>(i :: 32 word, n :: 32 word, reqs :: requests_map). unat n - unat i))"
    by simp
next
  fix i n :: "32 word" and reqs :: requests_map
  assume "i < n"
  then have lt: "unat i < unat n"
    by (simp add: word_less_nat_alt)
  have "unat n < 2 ^ 32"
    using unsigned_less [of n] by simp
  with lt have "unat (i + 1) = unat i + 1"
    by (simp add: unat_word_ariths)
  with lt show "((i + 1, n, reqs), (i, n, reqs)) \<in> measure (\<lambda>(i, n, reqs). unat n - unat i)"
    by simp
qed

declare all_complete_from.simps [simp del]

text \<open>
  Lines 174 to 195 of \<^verbatim>\<open>main\<close>: what the arrival of \<open>packet\<close> at \<open>recv_time\<close> does
  to the map \<^verbatim>\<open>requests\<close>. The assignments are made in the order of the source.
\<close>

definition record_packet :: "requests_map \<Rightarrow> Packet \<Rightarrow> 64 word \<Rightarrow> requests_map" where
  "record_packet reqs packet recv_time =
     (let rid = request_id packet;
          pid = packet_id packet;
          reqs1 = (if map_of reqs rid = None
                   then AList.update rid RequestStats_init reqs else reqs);
          reqs2 = assign rid (\<lambda>r. r\<lparr>received_packets := AList.update pid True (received_packets r)\<rparr>) reqs1;
          reqs3 = (if pid = 0
                   then assign rid (\<lambda>r. r\<lparr>first_packet_recv_time := recv_time\<rparr>)
                          (assign rid (\<lambda>r. r\<lparr>first_packet_send_time := timestamp packet\<rparr>) reqs2)
                   else reqs2);
          reqs4 = assign rid (\<lambda>r. r\<lparr>last_packet_recv_time := recv_time\<rparr>) reqs3
      in if length (received_packets (at_key reqs4 rid)) = unat (total_packets packet)
         then assign rid (\<lambda>r. r\<lparr>is_complete := True\<rparr>) reqs4 else reqs4)"

text \<open>
  One iteration of the receive loop of \<^verbatim>\<open>main\<close> (lines 148 to 211) for a datagram that
  \<^verbatim>\<open>recvfrom\<close> delivered: \<open>packet\<close> is its content and \<open>recv_time\<close> the clock value
  read at line 149. The session check of lines 197 to 211 clears \<^verbatim>\<open>running\<close>, which
  ends the loop. The intermediate \<^verbatim>\<open>write_results\<close> of lines 213 to 216 only writes
  the file and changes nothing here; the asynchronous \<^verbatim>\<open>SIGINT\<close> handler is outside
  the model.
\<close>

definition observe :: "client \<Rightarrow> Packet \<Rightarrow> 64 word \<Rightarrow> client" where
  "observe s packet recv_time =
     (let total = (if cur_total_requests s = 0 \<or> total_requests packet > cur_total_requests s
                   then total_requests packet else cur_total_requests s);
          highest = (if request_id packet > highest_request_id s
                     then request_id packet else highest_request_id s);
          reqs = record_packet (requests s) packet recv_time;
          run = (if total > 0 \<and> highest = total - 1
                 then (if all_complete_from 0 total reqs then False else running s)
                 else running s)
      in \<lparr>running = run, requests = reqs, highest_request_id = highest,
          cur_total_requests = total\<rparr>)"

text \<open>The receive loop on a list of delivered datagrams with their receive times.\<close>

fun receive_loop :: "client \<Rightarrow> (Packet \<times> 64 word) list \<Rightarrow> client" where
  "receive_loop s [] = s"
| "receive_loop s ((packet, recv_time) # rest) =
     (if running s then receive_loop (observe s packet recv_time) rest else s)"

text \<open>
  \<^verbatim>\<open>write_results\<close> of the datagram client: the rows sent to the output file, one for
  each entry of \<^verbatim>\<open>requests\<close> in the order of the \<^verbatim>\<open>int\<close> keys; \<open>None\<close> when the
  file could not be opened (\<open>is_open\<close> is the answer of \<^verbatim>\<open>outfile.is_open()\<close>). A row
  is the request id, \<^verbatim>\<open>first_packet_latency\<close> and \<^verbatim>\<open>last_to_first_diff\<close>; the
  subtractions are those of \<^verbatim>\<open>uint64_t\<close>.
\<close>

type_synonym row = "32 word \<times> 64 word \<times> 64 word"

definition write_results :: "bool \<Rightarrow> requests_map \<Rightarrow> row list option" where
  "write_results is_open reqs =
     (if \<not> is_open then None
      else Some (map (\<lambda>(k, stats).
                   (k, first_packet_recv_time stats - first_packet_send_time stats,
                    last_packet_recv_time stats - first_packet_recv_time stats))
                 (sort_key (\<lambda>(k, stats). sint k) reqs)))"

text \<open>
  The net effect of lines 174 to 195 on the entry of the packet's request, as one record
  update (shown equal to \<open>record_packet\<close> below).
\<close>

definition new_stats :: "Packet \<Rightarrow> 64 word \<Rightarrow> RequestStats \<Rightarrow> RequestStats" where
  "new_stats packet recv_time r =
     r\<lparr>received_packets := AList.update (packet_id packet) True (received_packets r),
       first_packet_send_time :=
         (if packet_id packet = 0 then timestamp packet else first_packet_send_time r),
       first_packet_recv_time :=
         (if packet_id packet = 0 then recv_time else first_packet_recv_time r),
       last_packet_recv_time := recv_time,
       is_complete := (is_complete r \<or>
         length (AList.update (packet_id packet) True (received_packets r))
           = unat (total_packets packet))\<rparr>"

text \<open>
  The session completion condition in the words of the specification: a positive
  declared total, and a complete record for every request id below it.
\<close>

definition session_complete :: "client \<Rightarrow> bool" where
  "session_complete s \<longleftrightarrow>
     cur_total_requests s > 0 \<and>
     (\<forall>i. i < cur_total_requests s \<longrightarrow>
        (\<exists>r. map_of (requests s) i = Some r \<and> is_complete r))"

text \<open>
  What holds of the tracker when every datagram so far carried a request id below its
  own \<^verbatim>\<open>total_requests\<close>: no key of \<^verbatim>\<open>requests\<close> is above \<^verbatim>\<open>highest_request_id\<close>,
  which is below the total as soon as a datagram has arrived.
\<close>

definition ids_below_total :: "client \<Rightarrow> bool" where
  "ids_below_total s \<longleftrightarrow>
     (\<forall>k r. map_of (requests s) k = Some r \<longrightarrow> k \<le> highest_request_id s) \<and>
     (highest_request_id s < cur_total_requests s \<or>
      (cur_total_requests s = 0 \<and> highest_request_id s = 0))"

section \<open>Datagram emitter: testbed-5G-latency/dl-latency-udp/server.cpp\<close>

text \<open>
  The parameters of \<^verbatim>\<open>send_request\<close> are of type \<^verbatim>\<open>int\<close>: integers between
  \<open>INT_MIN\<close> and \<open>INT_MAX\<close>. An addition whose result leaves that range is undefined
  behaviour and is the error \<open>SignedOverflow\<close> here; the constructor
  \<^verbatim>\<open>std::vector<Packet>(total_packets)\<close> with a negative count throws, the error
  \<open>LengthError\<close>.
\<close>

datatype error = SignedOverflow | LengthError

definition INT_MAX :: int where
  "INT_MAX = 2147483647"

definition MAX_PACKET_SIZE :: int where
  "MAX_PACKET_SIZE = 1400"

text \<open>The division of C++ on \<^verbatim>\<open>int\<close> truncates towards zero.\<close>

definition tdiv :: "int \<Rightarrow> int \<Rightarrow> int" where
  "tdiv a b = sgn a * sgn b * (\<bar>a\<bar> div \<bar>b\<bar>)"

text \<open>
  The first loop of \<^verbatim>\<open>send_request\<close> (lines 34 to 48), from index \<open>i\<close> on: the
  prepared packets, their \<^verbatim>\<open>timestamp\<close> still the zero of the vector's value
  initialisation. \<^verbatim>\<open>bytes_remaining\<close> is never negative inside the loop, so the
  subtraction of the unsigned \<^verbatim>\<open>data_size\<close> is the subtraction of integers.
\<close>

function prepare_packets :: "int \<Rightarrow> int \<Rightarrow> int \<Rightarrow> int \<Rightarrow> int \<Rightarrow> Packet list" where
  "prepare_packets i total_pkts bytes_remaining req_id total_reqs =
     (if i < total_pkts then
        (let dsize = (if bytes_remaining > MAX_PACKET_SIZE then MAX_PACKET_SIZE else bytes_remaining)
         in \<lparr>timestamp = 0, packet_id = word_of_int i, total_packets = word_of_int total_pkts,
             request_id = word_of_int req_id, total_requests = word_of_int total_reqs,
             data_size = word_of_int dsize\<rparr>
            # prepare_packets (i + 1) total_pkts (bytes_remaining - dsize) req_id total_reqs)
      else [])"
  by pat_completeness auto
termination
  by (relation "measure (\<lambda>(i, total_pkts, bytes_remaining, req_id, total_reqs). nat (total_pkts - i))")
    auto

declare prepare_packets.simps [simp del]

text \<open>
  The second loop (lines 51 to 65): each packet is stamped right before it is handed to
  \<^verbatim>\<open>sendto\<close>; \<open>clock k\<close> is the time read for the \<open>k\<close>-th packet. The result is the
  packets in the order sent.
\<close>

fun send_packets :: "(nat \<Rightarrow> 64 word) \<Rightarrow> nat \<Rightarrow> Packet list \<Rightarrow> Packet list" where
  "send_packets clock k [] = []"
| "send_packets clock k (p # ps) = p\<lparr>timestamp := clock k\<rparr> # send_packets clock (Suc k) ps"

definition send_request :: "(nat \<Rightarrow> 64 word) \<Rightarrow> int \<Rightarrow> int \<Rightarrow> int \<Rightarrow> error + Packet list" where
  "send_request clock bytes_to_send req_id total_reqs =
     (if bytes_to_send + MAX_PACKET_SIZE > INT_MAX then Inl SignedOverflow
      else let total_pkts = tdiv (bytes_to_send + MAX_PACKET_SIZE - 1) MAX_PACKET_SIZE
           in if total_pkts < 0 then Inl LengthError
              else Inr (send_packets clock 0
                          (prepare_packets 0 total_pkts bytes_to_send req_id total_reqs)))"

section \<open>Stream tracker: testbed-5G-latency/dl-latency-tcp/client.cpp\<close>

record RequestHeader =
  hdr_timestamp :: "64 word"
  hdr_request_id :: "32 word"
  hdr_total_requests :: "32 word"
  hdr_data_size :: "32 word"

text \<open>\<^verbatim>\<open>struct RequestStats\<close> of the stream client.\<close>

record StreamStats =
  send_time :: "64 word"
  header_recv_time :: "64 word"
  data_complete_time :: "64 word"
  stream_is_complete :: bool

definition StreamStats_init :: StreamStats where
  "StreamStats_init =
     \<lparr>send_time = 0, header_recv_time = 0, data_complete_time = 0, stream_is_complete = False\<rparr>"

type_synonym stream_requests = "(32 word \<times> StreamStats) list"

definition stream_at :: "stream_requests \<Rightarrow> 32 word \<Rightarrow> StreamStats" where
  "stream_at reqs k = (case map_of reqs k of None \<Rightarrow> StreamStats_init | Some r \<Rightarrow> r)"

definition stream_assign ::
  "32 word \<Rightarrow> (StreamStats \<Rightarrow> StreamStats) \<Rightarrow> stream_requests \<Rightarrow> stream_requests" where
  "stream_assign k f reqs = AList.update k (f (stream_at reqs k)) reqs"

text \<open>The globals and the locals of \<^verbatim>\<open>main\<close> that outlive an iteration.\<close>

record stream_client =
  stream_running :: bool
  stream_reqs :: stream_requests
  start_time :: "64 word"
  end_time :: "64 word"
  total_requests_received :: "32 word"
  expected_total_requests :: "32 word"

definition stream_client_init :: stream_client where
  "stream_client_init =
     \<lparr>stream_running = True, stream_reqs = [], start_time = 0, end_time = 0,
      total_requests_received = 0, expected_total_requests = 0\<rparr>"

text \<open>
  The socket, as far as the payload loop sees it: the list of what the connection will
  deliver. A positive entry is a burst of that many bytes, \<open>0\<close> the orderly shutdown of
  the peer, a negative entry a transport error; after the last entry the peer has
  closed. \<^verbatim>\<open>recv\<close> with buffer length \<open>len\<close> returns at most \<open>len\<close> bytes of a burst and
  leaves the rest queued, returns \<open>0\<close> on shutdown and \<open>-1\<close> on error.
\<close>

definition recv :: "int list \<Rightarrow> int \<Rightarrow> int \<times> int list" where
  "recv sock len =
     (case sock of
        [] \<Rightarrow> (0, [])
      | a # rest \<Rightarrow>
          if a < 0 then (- 1, rest)
          else if a = 0 then (0, rest)
          else if a \<le> len then (a, rest)
          else (len, (a - len) # rest))"

text \<open>
  The payload loop of lines 174 to 187: \<^verbatim>\<open>remaining\<close>, \<^verbatim>\<open>total_received\<close> and the
  socket when the loop is left.
\<close>

function recv_data :: "int \<Rightarrow> int \<Rightarrow> int list \<Rightarrow> int \<times> int \<times> int list" where
  "recv_data remaining total_received sock =
     (if remaining > 0 then
        (case recv sock remaining of
           (bytes_received, sock') \<Rightarrow>
             if bytes_received \<le> 0 then (remaining, total_received, sock')
             else recv_data (remaining - bytes_received) (total_received + bytes_received) sock')
      else (remaining, total_received, sock))"
  by pat_completeness auto
termination
  by (relation "measure (\<lambda>(remaining, total_received, sock). nat remaining)") auto

declare recv_data.simps [simp del]

text \<open>
  What one iteration of the inner loop meets: the return value of the \<^verbatim>\<open>recv\<close> of the
  header, the header read, the clock at line 165, the socket during the payload loop and
  the clock at line 190.
\<close>

record request_event =
  header_bytes :: int
  header :: RequestHeader
  header_time :: "64 word"
  payload_sock :: "int list"
  complete_time :: "64 word"

text \<open>Lines 200 to 224: the bookkeeping for a request whose payload arrived in full.\<close>

definition store_request :: "stream_client \<Rightarrow> request_event \<Rightarrow> stream_client" where
  "store_request s e =
     (let s1 = (if total_requests_received s = 0
                then s\<lparr>start_time := header_time e,
                       expected_total_requests := hdr_total_requests (header e)\<rparr>
                else s);
          s2 = s1\<lparr>end_time := complete_time e\<rparr>;
          rid = hdr_request_id (header e);
          reqs1 = stream_assign rid (\<lambda>r. r\<lparr>send_time := hdr_timestamp (header e)\<rparr>) (stream_reqs s2);
          reqs2 = stream_assign rid (\<lambda>r. r\<lparr>header_recv_time := header_time e\<rparr>) reqs1;
          reqs3 = stream_assign rid (\<lambda>r. r\<lparr>data_complete_time := complete_time e\<rparr>) reqs2;
          reqs4 = stream_assign rid (\<lambda>r. r\<lparr>stream_is_complete := True\<rparr>) reqs3
      in s2\<lparr>stream_reqs := reqs4, total_requests_received := total_requests_received s2 + 1\<rparr>)"

text \<open>
  The inner loop of lines 150 to 233 on one connection. \<^verbatim>\<open>int remaining =
  header.data_size\<close> converts the unsigned field to \<^verbatim>\<open>int\<close>: \<open>sint\<close>. Every
  \<^verbatim>\<open>break\<close> returns the state as it is; after the last event the peer has closed and
  the \<^verbatim>\<open>recv\<close> of the header returns \<open>0\<close>. The payload buffer is never read, and
  its allocation is taken to succeed.
\<close>

fun handle_client :: "stream_client \<Rightarrow> request_event list \<Rightarrow> stream_client" where
  "handle_client s [] = s"
| "handle_client s (e # es) =
     (if \<not> stream_running s then s
      else if header_bytes e \<le> 0 then s
      else (case recv_data (sint (hdr_data_size (header e))) 0 (payload_sock e) of
              (remaining, total_received, sock') \<Rightarrow>
                if remaining > 0 then s
                else (let s1 = store_request s e
                      in if expected_total_requests s1 > 0
                            \<and> total_requests_received s1 \<ge> expected_total_requests s1
                         then s1\<lparr>stream_running := False\<rparr>
                         else handle_client s1 es)))"

text \<open>
  The outer loop of lines 133 to 236: one entry for each return of \<^verbatim>\<open>accept\<close>,
  \<open>None\<close> when it failed (\<^verbatim>\<open>continue\<close>).
\<close>

fun accept_loop :: "stream_client \<Rightarrow> request_event list option list \<Rightarrow> stream_client" where
  "accept_loop s [] = s"
| "accept_loop s (c # cs) =
     (if \<not> stream_running s then s
      else (case c of
              None \<Rightarrow> accept_loop s cs
            | Some events \<Rightarrow> accept_loop (handle_client s events) cs))"

text \<open>
  \<^verbatim>\<open>write_results\<close> of the stream client: a row for each entry with
  \<^verbatim>\<open>is_complete\<close>, in the order of the \<^verbatim>\<open>int\<close> keys.
\<close>

definition stream_write_results :: "bool \<Rightarrow> stream_requests \<Rightarrow> row list option" where
  "stream_write_results is_open reqs =
     (if \<not> is_open then None
      else Some (map (\<lambda>(k, stats).
                   (k, header_recv_time stats - send_time stats,
                    data_complete_time stats - header_recv_time stats))
                 (filter (\<lambda>(k, stats). stream_is_complete stats)
                    (sort_key (\<lambda>(k, stats). sint k) reqs))))"

section \<open>Trigger-driven emitter: multiple-packet-dl-decompose/aws_server.cpp\<close>










section \<open>Properties of the datagram tracker\<close>

subsection \<open>The map of requests\<close>

lemma map_of_assign: "map_of (assign k f reqs) = (map_of reqs)(k \<mapsto> f (at_key reqs k))"
  by (simp add: assign_def update_conv')

lemma at_key_assign:
  "at_key (assign k f reqs) k' = (if k' = k then f (at_key reqs k) else at_key reqs k')"
  by (simp add: at_key_def map_of_assign)

lemma assign_assign: "assign k f (assign k g reqs) = assign k (\<lambda>r. f (g r)) reqs"
  by (simp add: assign_def at_key_def update_conv')

lemma assign_after_default:
  "map_of reqs k = None \<Longrightarrow> assign k f (AList.update k RequestStats_init reqs) = assign k f reqs"
  by (simp add: assign_def at_key_def update_conv')

lemma record_packet_eq:
  "record_packet reqs packet recv_time =
     assign (request_id packet) (new_stats packet recv_time) reqs"
  apply (simp add: record_packet_def Let_def assign_assign at_key_assign assign_after_default)
  apply (auto simp: assign_def at_key_def update_conv' RequestStats_init_def new_stats_def split: option.splits)
  done

lemma requests_observe:
  "requests (observe s packet recv_time) = record_packet (requests s) packet recv_time"
  by (simp add: observe_def Let_def)

lemma map_of_requests_observe:
  "map_of (requests (observe s packet recv_time)) =
     (map_of (requests s))(request_id packet \<mapsto> new_stats packet recv_time (at_key (requests s) (request_id packet)))"
  by (simp add: requests_observe record_packet_eq map_of_assign)

lemmas observe_eval = observe_def Let_def record_packet_eq new_stats_def assign_def at_key_def
  RequestStats_init_def client_init_def all_complete_from.simps

subsection \<open>Completed requests stay completed\<close>

lemma observe_keeps_complete:
  assumes "map_of (requests s) k = Some r" and "is_complete r"
  shows "\<exists>r'. map_of (requests (observe s packet recv_time)) k = Some r' \<and> is_complete r'"
proof (cases "k = request_id packet")
  case True
  with assms have "at_key (requests s) (request_id packet) = r"
    by (simp add: at_key_def)
  with assms True show ?thesis
    by (simp add: map_of_requests_observe new_stats_def)
next
  case False
  with assms show ?thesis
    by (simp add: map_of_requests_observe)
qed

text \<open>
  Claim C10. The flag \<^verbatim>\<open>is_complete\<close> is monotone: a request that is complete in a
  state of the tracker is still present and complete after the receive loop has processed
  any further list of datagrams, whatever they carry (duplicates, other packet ids, a
  changed \<^verbatim>\<open>total_packets\<close>).
\<close>

theorem is_complete_monotone:
  "map_of (requests s) k = Some r \<Longrightarrow> is_complete r \<Longrightarrow>
   \<exists>r'. map_of (requests (receive_loop s ps)) k = Some r' \<and> is_complete r'"
proof (induction ps arbitrary: s r)
  case Nil
  then show ?case by simp
next
  case (Cons a ps)
  obtain packet recv_time where a: "a = (packet, recv_time)"
    by (cases a)
  show ?case
  proof (cases "running s")
    case True
    from observe_keeps_complete [OF Cons.prems]
    obtain r1 where "map_of (requests (observe s packet recv_time)) k = Some r1" "is_complete r1"
      by blast
    from Cons.IH [OF this] True a show ?thesis
      by simp
  next
    case False
    with Cons.prems a show ?thesis by simp
  qed
qed

theorem is_complete_monotone_witness:
  "map_of (requests \<lparr>running = True,
      requests = [(0, \<lparr>first_packet_send_time = 5, first_packet_recv_time = 10,
                         last_packet_recv_time = 10, is_complete = True,
                         received_packets = [(0, True)]\<rparr>)],
      highest_request_id = 0, cur_total_requests = 2\<rparr>) 0
     = Some \<lparr>first_packet_send_time = 5, first_packet_recv_time = 10,
              last_packet_recv_time = 10, is_complete = True, received_packets = [(0, True)]\<rparr>
   \<and> (\<exists>r'. map_of (requests (receive_loop \<lparr>running = True,
      requests = [(0, \<lparr>first_packet_send_time = 5, first_packet_recv_time = 10,
                         last_packet_recv_time = 10, is_complete = True,
                         received_packets = [(0, True)]\<rparr>)],
      highest_request_id = 0, cur_total_requests = 2\<rparr>
        [(\<lparr>timestamp = 7, packet_id = 1, total_packets = 3, request_id = 0,
           total_requests = 2, data_size = 100\<rparr>, 20)])) 0 = Some r' \<and> is_complete r')"
  using is_complete_monotone [of "\<lparr>running = True,
      requests = [(0, \<lparr>first_packet_send_time = 5, first_packet_recv_time = 10,
                         last_packet_recv_time = 10, is_complete = True,
                         received_packets = [(0, True)]\<rparr>)],
      highest_request_id = 0, cur_total_requests = 2\<rparr>" 0
      "\<lparr>first_packet_send_time = 5, first_packet_recv_time = 10,
              last_packet_recv_time = 10, is_complete = True, received_packets = [(0, True)]\<rparr>"
      "[(\<lparr>timestamp = 7, packet_id = 1, total_packets = 3, request_id = 0,
           total_requests = 2, data_size = 100\<rparr>, 20)]"]
  by simp

subsection \<open>Session completion\<close>

lemma word_le_step: "(i::32 word) < n \<Longrightarrow> (i \<le> j) = (i = j \<or> i + 1 \<le> j)"
  by (metis inc_le interval_class.inc_less_eq_imp_less word_le_less_eq)

lemma all_complete_from_iff:
  "all_complete_from i n reqs \<longleftrightarrow>
     (\<forall>j. i \<le> j \<and> j < n \<longrightarrow> (\<exists>r. map_of reqs j = Some r \<and> is_complete r))"
proof (induction i n reqs rule: all_complete_from.induct)
  case (1 i n reqs)
  show ?case
  proof (cases "i < n")
    case False
    then show ?thesis
      by (auto simp: all_complete_from.simps [of i n reqs])
  next
    case True
    show ?thesis
    proof (cases "map_of reqs i = None \<or> \<not> is_complete (at_key reqs i)")
      case bad: True
      then have "\<not> (\<exists>r. map_of reqs i = Some r \<and> is_complete r)"
        by (auto simp: at_key_def)
      with True have "\<not> (\<forall>j. i \<le> j \<and> j < n \<longrightarrow> (\<exists>r. map_of reqs j = Some r \<and> is_complete r))"
        by (meson order_refl)
      with True bad show ?thesis
        by (simp add: all_complete_from.simps [of i n reqs])
    next
      case good: False
      then have here: "\<exists>r. map_of reqs i = Some r \<and> is_complete r"
        by (auto simp: at_key_def)
      have "all_complete_from i n reqs = all_complete_from (i + 1) n reqs"
        using True good by (auto simp: all_complete_from.simps [of i n reqs])
      also have "\<dots> = (\<forall>j. i + 1 \<le> j \<and> j < n \<longrightarrow> (\<exists>r. map_of reqs j = Some r \<and> is_complete r))"
        using "1.IH" [OF True good] .
      also have "\<dots> = (\<forall>j. i \<le> j \<and> j < n \<longrightarrow> (\<exists>r. map_of reqs j = Some r \<and> is_complete r))"
        using here True by (auto simp: word_le_step [OF True])
      finally show ?thesis .
    qed
  qed
qed

lemma running_observe:
  "running (observe s p t) =
     (running s \<and> \<not> (0 < cur_total_requests (observe s p t) \<and>
        highest_request_id (observe s p t) = cur_total_requests (observe s p t) - 1 \<and>
        all_complete_from 0 (cur_total_requests (observe s p t)) (requests (observe s p t))))"
  by (auto simp: observe_def Let_def)


lemma cur_total_requests_observe:
  "cur_total_requests (observe s p t) = max (cur_total_requests s) (total_requests p)"
  by (auto simp: observe_def Let_def max_def)

lemma highest_request_id_observe:
  "highest_request_id (observe s p t) = max (highest_request_id s) (request_id p)"
  by (auto simp: observe_def Let_def max_def)

lemma ids_below_total_init: "ids_below_total client_init"
  by (simp add: ids_below_total_def client_init_def)

lemma ids_below_total_observe:
  assumes "ids_below_total s" and "request_id p < total_requests p"
  shows "ids_below_total (observe s p t)"
proof -
  have keys: "k \<le> max (highest_request_id s) (request_id p)"
    if "map_of (requests (observe s p t)) k = Some r" for k r
  proof (cases "k = request_id p")
    case True
    then show ?thesis by simp
  next
    case False
    with that have "map_of (requests s) k = Some r"
      by (simp add: map_of_requests_observe)
    with assms(1) have "k \<le> highest_request_id s"
      by (auto simp: ids_below_total_def)
    then show ?thesis by (auto simp: max_def)
  qed
  have "max (highest_request_id s) (request_id p) < max (cur_total_requests s) (total_requests p)"
    using assms by (auto simp: ids_below_total_def max_def)
  with keys show ?thesis
    by (auto simp: ids_below_total_def cur_total_requests_observe highest_request_id_observe)
qed

lemma session_complete_highest:
  assumes "ids_below_total s" and "session_complete s"
  shows "highest_request_id s = cur_total_requests s - 1"
proof -
  from assms(2) have pos: "0 < cur_total_requests s"
    by (simp add: session_complete_def)
  then have "cur_total_requests s - 1 < cur_total_requests s"
    by (metis diff_0_right word_coorder.extremum_strict less_eq_dec_iff sub_wrap)
  with assms(2) obtain r where "map_of (requests s) (cur_total_requests s - 1) = Some r"
    by (auto simp: session_complete_def)
  with assms(1) have le: "cur_total_requests s - 1 \<le> highest_request_id s"
    by (auto simp: ids_below_total_def)
  from assms(1) pos have "highest_request_id s < cur_total_requests s"
    by (auto simp: ids_below_total_def)
  then have "highest_request_id s \<le> cur_total_requests s - 1"
    by (metis less_imp_less_eq_dec)
  with le show ?thesis by simp
qed

text \<open>
  Claim C1, as amended. While the loop runs, a call of \<open>observe\<close> clears \<^verbatim>\<open>running\<close>
  (the session-completed event) exactly when afterwards the session is complete in the
  sense of the specification and \<^verbatim>\<open>highest_request_id\<close> equals the declared total
  minus one; so it is never cleared while a request below the total is unseen or
  incomplete. When every datagram so far carried a request id below its own
  \<^verbatim>\<open>total_requests\<close>, the second condition follows from the first.
\<close>

theorem session_completed_iff:
  "running s \<Longrightarrow>
   ((\<not> running (observe s p t)) =
     (session_complete (observe s p t) \<and>
      highest_request_id (observe s p t) = cur_total_requests (observe s p t) - 1)) \<and>
   (ids_below_total s \<and> request_id p < total_requests p \<longrightarrow>
     (\<not> running (observe s p t)) = session_complete (observe s p t))"
proof -
  assume run: "running s"
  have first: "(\<not> running (observe s p t)) =
     (session_complete (observe s p t) \<and>
      highest_request_id (observe s p t) = cur_total_requests (observe s p t) - 1)"
    using run by (auto simp: running_observe [of s p t] session_complete_def all_complete_from_iff)
  have "(\<not> running (observe s p t)) = session_complete (observe s p t)"
    if "ids_below_total s" "request_id p < total_requests p"
    using first session_complete_highest [OF ids_below_total_observe [OF that]] by blast
  with first show ?thesis by blast
qed

theorem session_completed_iff_witness:
  "running client_init \<and>
   ids_below_total client_init \<and>
   (0 :: 32 word) < 1 \<and>
   \<not> running (observe client_init
        \<lparr>timestamp = 5, packet_id = 0, total_packets = 1, request_id = 0,
           total_requests = 1, data_size = 100\<rparr> 10) \<and>
   session_complete (observe client_init
        \<lparr>timestamp = 5, packet_id = 0, total_packets = 1, request_id = 0,
           total_requests = 1, data_size = 100\<rparr> 10)"
  using session_completed_iff [of client_init
        "\<lparr>timestamp = 5, packet_id = 0, total_packets = 1, request_id = 0,
           total_requests = 1, data_size = 100\<rparr>" 10]
  by (simp add: ids_below_total_init)
     (simp add: observe_eval)

text \<open>
  The claim as stated fails: a datagram of request 1 that declares a single request,
  then the only datagram of request 0. After the second the condition of the claim holds
  for the first time, and the loop keeps running.
\<close>

lemma stray_first:
  "observe client_init
        \<lparr>timestamp = 5, packet_id = 0, total_packets = 1, request_id = 1,
           total_requests = 1, data_size = 100\<rparr> 10
   = \<lparr>running = True,
      requests = [(1, \<lparr>first_packet_send_time = 5, first_packet_recv_time = 10,
                        last_packet_recv_time = 10, is_complete = True,
                        received_packets = [(0, True)]\<rparr>)],
      highest_request_id = 1, cur_total_requests = 1\<rparr>"
  by (simp add: observe_eval)

lemma stray_second:
  "observe \<lparr>running = True,
      requests = [(1, \<lparr>first_packet_send_time = 5, first_packet_recv_time = 10,
                        last_packet_recv_time = 10, is_complete = True,
                        received_packets = [(0, True)]\<rparr>)],
      highest_request_id = 1, cur_total_requests = 1\<rparr>
        \<lparr>timestamp = 6, packet_id = 0, total_packets = 1, request_id = 0,
           total_requests = 1, data_size = 100\<rparr> 20
   = \<lparr>running = True,
      requests = [(1, \<lparr>first_packet_send_time = 5, first_packet_recv_time = 10,
                        last_packet_recv_time = 10, is_complete = True,
                        received_packets = [(0, True)]\<rparr>),
                  (0, \<lparr>first_packet_send_time = 6, first_packet_recv_time = 20,
                        last_packet_recv_time = 20, is_complete = True,
                        received_packets = [(0, True)]\<rparr>)],
      highest_request_id = 1, cur_total_requests = 1\<rparr>"
  by (simp add: observe_eval)

theorem session_not_emitted_counterexample:
  "\<not> session_complete (observe client_init
        \<lparr>timestamp = 5, packet_id = 0, total_packets = 1, request_id = 1,
           total_requests = 1, data_size = 100\<rparr> 10) \<and>
   session_complete (observe (observe client_init
        \<lparr>timestamp = 5, packet_id = 0, total_packets = 1, request_id = 1,
           total_requests = 1, data_size = 100\<rparr> 10)
        \<lparr>timestamp = 6, packet_id = 0, total_packets = 1, request_id = 0,
           total_requests = 1, data_size = 100\<rparr> 20) \<and>
   running (observe (observe client_init
        \<lparr>timestamp = 5, packet_id = 0, total_packets = 1, request_id = 1,
           total_requests = 1, data_size = 100\<rparr> 10)
        \<lparr>timestamp = 6, packet_id = 0, total_packets = 1, request_id = 0,
           total_requests = 1, data_size = 100\<rparr> 20)"
  unfolding stray_first stray_second
  by (simp add: session_complete_def)

subsection \<open>Duplicate delivery\<close>

lemma new_stats_twice: "new_stats p t2 (new_stats p t1 r) = new_stats p t2 r"
  by (simp add: new_stats_def)

lemma record_packet_twice:
  "record_packet (record_packet reqs p t1) p t2 = record_packet reqs p t2"
  by (simp add: record_packet_eq assign_assign new_stats_twice)

lemma complete_after_record_packet:
  "(\<exists>r. map_of (record_packet reqs p t1) j = Some r \<and> is_complete r) =
   (\<exists>r. map_of (record_packet reqs p t2) j = Some r \<and> is_complete r)"
  by (simp add: record_packet_eq map_of_assign new_stats_def)

lemma all_complete_from_record_packet:
  "all_complete_from i n (record_packet reqs p t1) = all_complete_from i n (record_packet reqs p t2)"
  unfolding all_complete_from_iff
  using complete_after_record_packet [of reqs p t1 _ t2] by simp

lemma observe_fields:
  "observe s p t =
     \<lparr>running = (running s \<and>
         \<not> (0 < max (cur_total_requests s) (total_requests p) \<and>
            max (highest_request_id s) (request_id p) = max (cur_total_requests s) (total_requests p) - 1 \<and>
            all_complete_from 0 (max (cur_total_requests s) (total_requests p))
              (record_packet (requests s) p t))),
      requests = record_packet (requests s) p t,
      highest_request_id = max (highest_request_id s) (request_id p),
      cur_total_requests = max (cur_total_requests s) (total_requests p)\<rparr>"
  by (auto simp: observe_def Let_def max_def)

lemma observe_state_twice:
  "observe (observe s p t1) p t2 = observe s p t2"
  using all_complete_from_record_packet [of 0 _ "requests s" p t1 t2]
  by (auto simp: observe_fields record_packet_twice)

lemma at_key_observe:
  "at_key (requests (observe s p t)) (request_id p)
     = new_stats p t (at_key (requests s) (request_id p))"
  by (simp add: requests_observe record_packet_eq at_key_assign)

text \<open>
  Claim C2, as amended. Observing the same fragment twice leaves the tracker in the state
  that observing it once, at the receive time of the second arrival, leaves it in, so with
  equal receive times \<open>observe\<close> is idempotent. The record of the fragment's request
  exists after the duplicate; its \<^verbatim>\<open>last_packet_recv_time\<close> is the time of the second
  arrival, and for packet 0 so is its \<^verbatim>\<open>first_packet_recv_time\<close> (the last occurrence
  wins), with \<^verbatim>\<open>first_packet_send_time\<close> again the fragment's timestamp; for another
  packet the first-packet times are those after the first arrival. The received packets,
  which hold the fragment's index, and \<^verbatim>\<open>is_complete\<close> are as the first arrival left
  them.
\<close>

theorem observe_twice:
  "observe (observe s p t1) p t2 = observe s p t2 \<and>
   map_of (requests (observe (observe s p t1) p t2)) (request_id p)
     = Some (at_key (requests (observe (observe s p t1) p t2)) (request_id p)) \<and>
   last_packet_recv_time (at_key (requests (observe (observe s p t1) p t2)) (request_id p)) = t2 \<and>
   (packet_id p = 0 \<longrightarrow>
      first_packet_recv_time (at_key (requests (observe (observe s p t1) p t2)) (request_id p)) = t2 \<and>
      first_packet_send_time (at_key (requests (observe (observe s p t1) p t2)) (request_id p))
        = timestamp p) \<and>
   (packet_id p \<noteq> 0 \<longrightarrow>
      first_packet_recv_time (at_key (requests (observe (observe s p t1) p t2)) (request_id p))
        = first_packet_recv_time (at_key (requests (observe s p t1)) (request_id p)) \<and>
      first_packet_send_time (at_key (requests (observe (observe s p t1) p t2)) (request_id p))
        = first_packet_send_time (at_key (requests (observe s p t1)) (request_id p))) \<and>
   received_packets (at_key (requests (observe (observe s p t1) p t2)) (request_id p))
     = received_packets (at_key (requests (observe s p t1)) (request_id p)) \<and>
   map_of (received_packets (at_key (requests (observe (observe s p t1) p t2)) (request_id p)))
     (packet_id p) = Some True \<and>
   is_complete (at_key (requests (observe (observe s p t1) p t2)) (request_id p))
     = is_complete (at_key (requests (observe s p t1)) (request_id p))"
proof -
  have present: "map_of (requests (observe (observe s p t1) p t2)) (request_id p)
     = Some (at_key (requests (observe (observe s p t1) p t2)) (request_id p))"
    by (simp add: map_of_requests_observe at_key_def)
  have fields: "at_key (requests (observe (observe s p t1) p t2)) (request_id p)
     = new_stats p t2 (new_stats p t1 (at_key (requests s) (request_id p)))"
    by (simp only: at_key_observe)
  show ?thesis
    by (simp only: observe_state_twice present [simplified observe_state_twice] fields
          at_key_observe [of s p t1] at_key_observe [of s p t2] new_stats_twice)
       (simp add: new_stats_def update_conv')
qed

theorem observe_twice_witness:
  "observe (observe client_init
      \<lparr>timestamp = 5, packet_id = 0, total_packets = 2, request_id = 0,
         total_requests = 1, data_size = 1400\<rparr> 10)
      \<lparr>timestamp = 5, packet_id = 0, total_packets = 2, request_id = 0,
         total_requests = 1, data_size = 1400\<rparr> 20
   = \<lparr>running = True,
      requests = [(0, \<lparr>first_packet_send_time = 5, first_packet_recv_time = 20,
                        last_packet_recv_time = 20, is_complete = False,
                        received_packets = [(0, True)]\<rparr>)],
      highest_request_id = 0, cur_total_requests = 1\<rparr>"
  using observe_twice [of client_init
      "\<lparr>timestamp = 5, packet_id = 0, total_packets = 2, request_id = 0,
         total_requests = 1, data_size = 1400\<rparr>" 10 20]
  by (simp add: observe_eval)

text \<open>
  The claim as stated fails: packet 0 of a request of two packets, delivered at time 10
  and again at time 20. The record after the duplicate differs from the record after the
  first arrival in \<^verbatim>\<open>first_packet_recv_time\<close> and \<^verbatim>\<open>last_packet_recv_time\<close>.
\<close>

theorem duplicate_overwrites_counterexample:
  "map_of (requests (observe client_init
      \<lparr>timestamp = 5, packet_id = 0, total_packets = 2, request_id = 0,
         total_requests = 1, data_size = 1400\<rparr> 10)) 0
     = Some \<lparr>first_packet_send_time = 5, first_packet_recv_time = 10,
              last_packet_recv_time = 10, is_complete = False,
              received_packets = [(0, True)]\<rparr> \<and>
   map_of (requests (observe (observe client_init
      \<lparr>timestamp = 5, packet_id = 0, total_packets = 2, request_id = 0,
         total_requests = 1, data_size = 1400\<rparr> 10)
      \<lparr>timestamp = 5, packet_id = 0, total_packets = 2, request_id = 0,
         total_requests = 1, data_size = 1400\<rparr> 20)) 0
     = Some \<lparr>first_packet_send_time = 5, first_packet_recv_time = 20,
              last_packet_recv_time = 20, is_complete = False,
              received_packets = [(0, True)]\<rparr> \<and>
   map_of (requests (observe (observe client_init
      \<lparr>timestamp = 5, packet_id = 0, total_packets = 2, request_id = 0,
         total_requests = 1, data_size = 1400\<rparr> 10)
      \<lparr>timestamp = 5, packet_id = 0, total_packets = 2, request_id = 0,
         total_requests = 1, data_size = 1400\<rparr> 20)) 0
     \<noteq> map_of (requests (observe client_init
      \<lparr>timestamp = 5, packet_id = 0, total_packets = 2, request_id = 0,
         total_requests = 1, data_size = 1400\<rparr> 10)) 0"
  by (simp add: observe_eval)

subsection \<open>Receive times\<close>

text \<open>
  Claim C3, as amended. \<open>observe\<close> sets \<^verbatim>\<open>last_packet_recv_time\<close> of the fragment's
  request to the receive time of this arrival, which is the maximum of the old value and
  the new time whenever the new time is not the earlier one. A fragment with packet id 0
  sets \<^verbatim>\<open>first_packet_recv_time\<close> to its receive time, any other fragment leaves it
  as it is.
\<close>

theorem observe_receive_times:
  "last_packet_recv_time (at_key (requests (observe s p t)) (request_id p)) = t \<and>
   (last_packet_recv_time (at_key (requests s) (request_id p)) \<le> t \<longrightarrow>
      last_packet_recv_time (at_key (requests (observe s p t)) (request_id p))
        = max (last_packet_recv_time (at_key (requests s) (request_id p))) t) \<and>
   (packet_id p = 0 \<longrightarrow>
      first_packet_recv_time (at_key (requests (observe s p t)) (request_id p)) = t) \<and>
   (packet_id p \<noteq> 0 \<longrightarrow>
      first_packet_recv_time (at_key (requests (observe s p t)) (request_id p))
        = first_packet_recv_time (at_key (requests s) (request_id p)))"
  by (simp add: requests_observe record_packet_eq at_key_assign new_stats_def max_def)

theorem observe_receive_times_witness:
  "last_packet_recv_time (at_key (requests (observe client_init
      \<lparr>timestamp = 5, packet_id = 0, total_packets = 2, request_id = 0,
         total_requests = 1, data_size = 1400\<rparr> 100)) 0) = 100 \<and>
   last_packet_recv_time (at_key (requests (observe (observe client_init
      \<lparr>timestamp = 5, packet_id = 0, total_packets = 2, request_id = 0,
         total_requests = 1, data_size = 1400\<rparr> 100)
      \<lparr>timestamp = 6, packet_id = 1, total_packets = 2, request_id = 0,
         total_requests = 1, data_size = 200\<rparr> 130)) 0) = max 100 130 \<and>
   first_packet_recv_time (at_key (requests (observe (observe client_init
      \<lparr>timestamp = 5, packet_id = 0, total_packets = 2, request_id = 0,
         total_requests = 1, data_size = 1400\<rparr> 100)
      \<lparr>timestamp = 6, packet_id = 1, total_packets = 2, request_id = 0,
         total_requests = 1, data_size = 200\<rparr> 130)) 0) = 100"
  using observe_receive_times [of "observe client_init
      \<lparr>timestamp = 5, packet_id = 0, total_packets = 2, request_id = 0,
         total_requests = 1, data_size = 1400\<rparr> 100"
      "\<lparr>timestamp = 6, packet_id = 1, total_packets = 2, request_id = 0,
         total_requests = 1, data_size = 200\<rparr>" 130]
    observe_receive_times [of client_init
      "\<lparr>timestamp = 5, packet_id = 0, total_packets = 2, request_id = 0,
         total_requests = 1, data_size = 1400\<rparr>" 100]
  by simp

text \<open>
  The claim as stated fails: packet 1 read at time 100, then packet 0 of the same request
  read at time 50. The recorded last time goes back to 50.
\<close>

theorem last_time_regresses_counterexample:
  "last_packet_recv_time (at_key (requests (observe (observe client_init
      \<lparr>timestamp = 5, packet_id = 1, total_packets = 2, request_id = 0,
         total_requests = 1, data_size = 200\<rparr> 100)
      \<lparr>timestamp = 4, packet_id = 0, total_packets = 2, request_id = 0,
         total_requests = 1, data_size = 1400\<rparr> 50)) 0)
   \<noteq> max (last_packet_recv_time (at_key (requests (observe client_init
      \<lparr>timestamp = 5, packet_id = 1, total_packets = 2, request_id = 0,
         total_requests = 1, data_size = 200\<rparr> 100)) 0)) 50"
  by (simp add: observe_eval)

subsection \<open>Fragments with an index beyond the count\<close>

text \<open>
  Claim C4, as amended. \<open>observe\<close> makes no check of \<^verbatim>\<open>packet_id\<close> against
  \<^verbatim>\<open>total_packets\<close>: a fragment whose index is not below its count is handled as any
  other. Its request has a record afterwards, with the index among the received packets
  and this arrival as the last receive time; the declared total and the highest request
  id are raised as usual; the records of the other requests are unchanged.
\<close>

theorem malformed_is_recorded:
  "total_packets p \<le> packet_id p \<Longrightarrow>
   (\<exists>r. map_of (requests (observe s p t)) (request_id p) = Some r \<and>
        map_of (received_packets r) (packet_id p) = Some True \<and>
        last_packet_recv_time r = t) \<and>
   cur_total_requests (observe s p t) = max (cur_total_requests s) (total_requests p) \<and>
   highest_request_id (observe s p t) = max (highest_request_id s) (request_id p) \<and>
   (\<forall>k. k \<noteq> request_id p \<longrightarrow> map_of (requests (observe s p t)) k = map_of (requests s) k)"
  by (simp add: map_of_requests_observe new_stats_def update_conv'
        cur_total_requests_observe highest_request_id_observe)

theorem malformed_is_recorded_witness:
  "(3 :: 32 word) \<le> 5 \<and>
   map_of (requests (observe client_init
      \<lparr>timestamp = 5, packet_id = 5, total_packets = 3, request_id = 0,
         total_requests = 1, data_size = 1400\<rparr> 10)) 0
     = Some \<lparr>first_packet_send_time = 0, first_packet_recv_time = 0,
              last_packet_recv_time = 10, is_complete = False,
              received_packets = [(5, True)]\<rparr> \<and>
   cur_total_requests (observe client_init
      \<lparr>timestamp = 5, packet_id = 5, total_packets = 3, request_id = 0,
         total_requests = 1, data_size = 1400\<rparr> 10) = 1"
  using malformed_is_recorded [of
      "\<lparr>timestamp = 5, packet_id = 5, total_packets = 3, request_id = 0,
         total_requests = 1, data_size = 1400\<rparr>" client_init 10]
  by (simp add: observe_eval)

text \<open>
  The claim as stated fails: a fragment with index 5 of 3 creates a record and raises the
  declared total.
\<close>

theorem malformed_mutates_counterexample:
  "requests client_init = [] \<and>
   requests (observe client_init
      \<lparr>timestamp = 5, packet_id = 5, total_packets = 3, request_id = 0,
         total_requests = 1, data_size = 1400\<rparr> 10)
     = [(0, \<lparr>first_packet_send_time = 0, first_packet_recv_time = 0,
              last_packet_recv_time = 10, is_complete = False,
              received_packets = [(5, True)]\<rparr>)] \<and>
   cur_total_requests client_init = 0 \<and>
   cur_total_requests (observe client_init
      \<lparr>timestamp = 5, packet_id = 5, total_packets = 3, request_id = 0,
         total_requests = 1, data_size = 1400\<rparr> 10) = 1 \<and>
   observe client_init
      \<lparr>timestamp = 5, packet_id = 5, total_packets = 3, request_id = 0,
         total_requests = 1, data_size = 1400\<rparr> 10 \<noteq> client_init"
  by (simp add: observe_eval)

section \<open>The declared total in both trackers\<close>

lemma cur_total_requests_foldl:
  "cur_total_requests (foldl (\<lambda>s (p, t). observe s p t) s ps)
     = fold max (map (total_requests \<circ> fst) ps) (cur_total_requests s)"
proof (induction ps arbitrary: s)
  case Nil
  then show ?case by simp
next
  case (Cons a ps)
  obtain p t where "a = (p, t)" by (cases a)
  with Cons show ?case
    by (simp add: cur_total_requests_observe max.commute)
qed

lemma cur_total_requests_run:
  "cur_total_requests (foldl (\<lambda>s (p, t). observe s p t) client_init ps)
     = Max (set (0 # map (total_requests \<circ> fst) ps))"
  by (simp only: Max.set_eq_fold cur_total_requests_foldl) (simp add: client_init_def)

lemma expected_store_request:
  "expected_total_requests (store_request s e)
     = (if total_requests_received s = 0 then hdr_total_requests (header e)
        else expected_total_requests s)"
  by (simp add: store_request_def Let_def)

lemma received_store_request:
  "total_requests_received (store_request s e) = total_requests_received s + 1"
  by (simp add: store_request_def Let_def)

lemma running_store_request:
  "stream_running (store_request s e) = stream_running s"
  by (simp add: store_request_def Let_def)

lemma word_succ_pos: "(x :: 32 word) < n \<Longrightarrow> 0 < x + 1"
proof -
  assume "x < n"
  then have lt: "unat x < unat n"
    by (simp add: word_less_nat_alt)
  have "unat n < 2 ^ 32"
    using unsigned_less [of n] by simp
  with lt have "unat (x + 1) = unat x + 1"
    by (simp add: unat_word_ariths)
  then have "unat (x + 1) \<noteq> 0"
    by simp
  then show ?thesis
    by (simp add: word_gt_0 unat_eq_0)
qed

lemma expected_handle_client:
  "0 < total_requests_received s \<Longrightarrow> total_requests_received s < expected_total_requests s \<Longrightarrow>
   expected_total_requests (handle_client s es) = expected_total_requests s"
proof (induction es arbitrary: s)
  case Nil
  then show ?case by simp
next
  case (Cons e es)
  let ?s1 = "store_request s e"
  from Cons.prems have ne: "total_requests_received s \<noteq> 0"
    by auto
  then have ex: "expected_total_requests ?s1 = expected_total_requests s"
    by (simp add: expected_store_request)
  have pos: "0 < total_requests_received ?s1"
    using Cons.prems by (simp only: received_store_request word_succ_pos)
  have step: "expected_total_requests (handle_client ?s1 es) = expected_total_requests s"
    if "\<not> expected_total_requests ?s1 \<le> total_requests_received ?s1"
    using Cons.IH [of ?s1] pos that ex by simp
  from Cons.prems have "0 < expected_total_requests s"
    by (metis word_gt_0 word_not_simps(1))
  with ex step show ?case
    by (auto simp: Let_def split: prod.splits)
qed

lemmas stream_eval = store_request_def Let_def stream_client_init_def stream_assign_def
  stream_at_def StreamStats_init_def recv_data.simps recv_def word_le_nat_alt word_less_nat_alt

text \<open>
  Claim C5, as amended. In the datagram tracker the declared total after a fragment is
  the maximum of the old value and the fragment's \<^verbatim>\<open>total_requests\<close>, so after any
  sequence of fragments it is the maximum of the values seen (0 before the first), and
  the session-completed event waits for a complete record of every request below the
  raised total. The stream tracker takes \<^verbatim>\<open>expected_total_requests\<close> from a header
  only while no request has been received; once a request is counted and the count is
  below the expected total, no later header of the connection changes it.
\<close>

theorem declared_total:
  "cur_total_requests (observe s p t) = max (cur_total_requests s) (total_requests p) \<and>
   cur_total_requests (foldl (\<lambda>s (p, t). observe s p t) client_init ps)
     = Max (set (0 # map (total_requests \<circ> fst) ps)) \<and>
   (running s \<and> \<not> running (observe s p t) \<longrightarrow> session_complete (observe s p t)) \<and>
   expected_total_requests (store_request c e)
     = (if total_requests_received c = 0 then hdr_total_requests (header e)
        else expected_total_requests c) \<and>
   (0 < total_requests_received c \<and> total_requests_received c < expected_total_requests c \<longrightarrow>
      expected_total_requests (handle_client c es) = expected_total_requests c)"
proof -
  have waits: "session_complete (observe s p t)" if "running s" "\<not> running (observe s p t)"
    using that running_observe [of s p t]
    by (auto simp: session_complete_def all_complete_from_iff)
  have fixed: "expected_total_requests (handle_client c es) = expected_total_requests c"
    if "0 < total_requests_received c" "total_requests_received c < expected_total_requests c"
    using that by (rule expected_handle_client)
  show ?thesis
    using waits fixed
    by (simp only: cur_total_requests_observe cur_total_requests_run expected_store_request)
      blast
qed

theorem declared_total_witness:
  "cur_total_requests (observe (observe client_init
      \<lparr>timestamp = 5, packet_id = 0, total_packets = 1, request_id = 0,
         total_requests = 5, data_size = 100\<rparr> 10)
      \<lparr>timestamp = 6, packet_id = 0, total_packets = 1, request_id = 1,
         total_requests = 10, data_size = 100\<rparr> 20) = 10 \<and>
   cur_total_requests (foldl (\<lambda>s (p, t). observe s p t) client_init
      [(\<lparr>timestamp = 5, packet_id = 0, total_packets = 1, request_id = 0,
          total_requests = 5, data_size = 100\<rparr>, 10),
       (\<lparr>timestamp = 6, packet_id = 0, total_packets = 1, request_id = 1,
          total_requests = 10, data_size = 100\<rparr>, 20)]) = 10 \<and>
   expected_total_requests (store_request stream_client_init
      \<lparr>header_bytes = 24,
         header = \<lparr>hdr_timestamp = 5, hdr_request_id = 0, hdr_total_requests = 5,
                    hdr_data_size = 100\<rparr>,
         header_time = 10, payload_sock = [100], complete_time = 12\<rparr>) = 5 \<and>
   expected_total_requests (handle_client
      \<lparr>stream_running = True, stream_reqs = [], start_time = 10, end_time = 12,
         total_requests_received = 1, expected_total_requests = 5\<rparr>
      [\<lparr>header_bytes = 24,
          header = \<lparr>hdr_timestamp = 20, hdr_request_id = 1, hdr_total_requests = 10,
                     hdr_data_size = 100\<rparr>,
          header_time = 25, payload_sock = [60, 40], complete_time = 27\<rparr>]) = 5"
  using declared_total [of "observe client_init
      \<lparr>timestamp = 5, packet_id = 0, total_packets = 1, request_id = 0,
         total_requests = 5, data_size = 100\<rparr> 10"
      "\<lparr>timestamp = 6, packet_id = 0, total_packets = 1, request_id = 1,
         total_requests = 10, data_size = 100\<rparr>" 20
      "[(\<lparr>timestamp = 5, packet_id = 0, total_packets = 1, request_id = 0,
          total_requests = 5, data_size = 100\<rparr>, 10),
       (\<lparr>timestamp = 6, packet_id = 0, total_packets = 1, request_id = 1,
          total_requests = 10, data_size = 100\<rparr>, 20)]"
      "\<lparr>stream_running = True, stream_reqs = [], start_time = 10, end_time = 12,
         total_requests_received = 1, expected_total_requests = 5\<rparr>"
      "\<lparr>header_bytes = 24,
         header = \<lparr>hdr_timestamp = 5, hdr_request_id = 0, hdr_total_requests = 5,
                    hdr_data_size = 100\<rparr>,
         header_time = 10, payload_sock = [100], complete_time = 12\<rparr>"
      "[\<lparr>header_bytes = 24,
          header = \<lparr>hdr_timestamp = 20, hdr_request_id = 1, hdr_total_requests = 10,
                     hdr_data_size = 100\<rparr>,
          header_time = 25, payload_sock = [60, 40], complete_time = 27\<rparr>]"]
  by (simp add: observe_eval store_request_def stream_client_init_def)

text \<open>
  The claim as stated fails for the stream tracker: a request whose header declares 5
  requests, then one whose header declares 10. The expected total stays 5.
\<close>

theorem stream_total_not_raised_counterexample:
  "expected_total_requests (handle_client stream_client_init
      [\<lparr>header_bytes = 24,
          header = \<lparr>hdr_timestamp = 5, hdr_request_id = 0, hdr_total_requests = 5,
                     hdr_data_size = 100\<rparr>,
          header_time = 10, payload_sock = [100], complete_time = 12\<rparr>,
       \<lparr>header_bytes = 24,
          header = \<lparr>hdr_timestamp = 20, hdr_request_id = 1, hdr_total_requests = 10,
                     hdr_data_size = 100\<rparr>,
          header_time = 25, payload_sock = [60, 40], complete_time = 27\<rparr>]) = 5 \<and>
   expected_total_requests (handle_client stream_client_init
      [\<lparr>header_bytes = 24,
          header = \<lparr>hdr_timestamp = 5, hdr_request_id = 0, hdr_total_requests = 5,
                     hdr_data_size = 100\<rparr>,
          header_time = 10, payload_sock = [100], complete_time = 12\<rparr>,
       \<lparr>header_bytes = 24,
          header = \<lparr>hdr_timestamp = 20, hdr_request_id = 1, hdr_total_requests = 10,
                     hdr_data_size = 100\<rparr>,
          header_time = 25, payload_sock = [60, 40], complete_time = 27\<rparr>])
     \<noteq> max 5 10"
  by (simp add: stream_eval)

section \<open>The rows written by the datagram client\<close>

lemma write_results_all_entries:
  "write_results True reqs = Some rows \<Longrightarrow> map fst rows = map fst (sort_key (\<lambda>(k, stats). sint k) reqs)"
  by (auto simp: write_results_def case_prod_unfold)

text \<open>
  Claim C6, at the failing input. The datagram client has received packet 1 of a request
  of two packets and nothing else, so the request is not complete;
  \<^verbatim>\<open>write_results\<close> writes a row for it all the same (with the zero of the missing
  first packet as its times).
\<close>

theorem incomplete_request_written:
  "\<not> is_complete (at_key (requests (observe client_init
      \<lparr>timestamp = 5, packet_id = 1, total_packets = 2, request_id = 0,
         total_requests = 1, data_size = 200\<rparr> 10)) 0) \<and>
   write_results True (requests (observe client_init
      \<lparr>timestamp = 5, packet_id = 1, total_packets = 2, request_id = 0,
         total_requests = 1, data_size = 200\<rparr> 10)) = Some [(0, 0, 10)]"
  by (simp add: observe_eval write_results_def)

section \<open>Properties of the trigger-driven emitter\<close>










section \<open>Properties of the datagram emitter\<close>

text \<open>
  For a payload size that does not overflow, \<^verbatim>\<open>send_request\<close> sends the packets the
  specification asks for: their number \<open>n\<close> is the least with \<open>1400 * n\<close> not below
  the payload size, they carry the indices \<open>0\<close> to \<open>n - 1\<close> in order, each is
  stamped when it is sent, all but the last carry 1400 bytes, the last carries the rest,
  and the sizes add up to the payload size.
\<close>

lemma tdiv_nonneg: "0 \<le> a \<Longrightarrow> 0 < b \<Longrightarrow> tdiv a b = a div b"
  by (cases "a = 0") (simp_all add: tdiv_def)

lemma length_prepare_packets:
  "length (prepare_packets i n rem rid tr) = nat (n - i)"
proof (induction i n rem rid tr rule: prepare_packets.induct)
  case (1 i n rem rid tr)
  show ?case
  proof (cases "i < n")
    case True
    with "1.IH" [OF True refl] show ?thesis
      by (simp add: prepare_packets.simps [of i n rem rid tr] Let_def nat_diff_distrib')
  next
    case False
    then show ?thesis
      by (simp add: prepare_packets.simps [of i n rem rid tr])
  qed
qed

lemma nth_prepare_packets:
  "0 \<le> rem \<Longrightarrow> k < nat (n - i) \<Longrightarrow>
   prepare_packets i n rem rid tr ! k =
     \<lparr>timestamp = 0, packet_id = word_of_int (i + int k), total_packets = word_of_int n,
      request_id = word_of_int rid, total_requests = word_of_int tr,
      data_size = word_of_int (min MAX_PACKET_SIZE (max 0 (rem - MAX_PACKET_SIZE * int k)))\<rparr>"
proof (induction i n rem rid tr arbitrary: k rule: prepare_packets.induct)
  case (1 i n rem rid tr)
  from "1.prems" have lt: "i < n"
    by simp
  let ?d = "if rem > MAX_PACKET_SIZE then MAX_PACKET_SIZE else rem"
  have unfold: "prepare_packets i n rem rid tr =
      \<lparr>timestamp = 0, packet_id = word_of_int i, total_packets = word_of_int n,
       request_id = word_of_int rid, total_requests = word_of_int tr,
       data_size = word_of_int ?d\<rparr> # prepare_packets (i + 1) n (rem - ?d) rid tr"
    using lt by (simp add: prepare_packets.simps [of i n rem rid tr] Let_def)
  show ?case
  proof (cases k)
    case 0
    with "1.prems" show ?thesis
      by (simp add: unfold MAX_PACKET_SIZE_def)
  next
    case (Suc j)
    have rem': "0 \<le> rem - ?d"
      using "1.prems" by (simp add: MAX_PACKET_SIZE_def)
    have j: "j < nat (n - (i + 1))"
      using "1.prems" Suc by simp
    have "min MAX_PACKET_SIZE (max 0 (rem - ?d - MAX_PACKET_SIZE * int j))
        = min MAX_PACKET_SIZE (max 0 (rem - MAX_PACKET_SIZE * int (Suc j)))"
      using "1.prems" by (auto simp: MAX_PACKET_SIZE_def min_def max_def algebra_simps)
    with "1.IH" [OF lt refl rem' j] Suc show ?thesis
      by (simp add: unfold algebra_simps)
  qed
qed

lemma sum_prepare_packets:
  "0 \<le> rem \<Longrightarrow> i \<le> n \<Longrightarrow>
   sum_list (map (uint \<circ> data_size) (prepare_packets i n rem rid tr))
     = min rem (MAX_PACKET_SIZE * (n - i))"
proof (induction i n rem rid tr rule: prepare_packets.induct)
  case (1 i n rem rid tr)
  show ?case
  proof (cases "i < n")
    case False
    with "1.prems" have "i = n"
      by simp
    moreover have "prepare_packets n n rem rid tr = []"
      by (simp add: prepare_packets.simps [of n n rem rid tr])
    ultimately show ?thesis
      using "1.prems" by simp
  next
    case lt: True
    let ?d = "if rem > MAX_PACKET_SIZE then MAX_PACKET_SIZE else rem"
    have unfold: "prepare_packets i n rem rid tr =
      \<lparr>timestamp = 0, packet_id = word_of_int i, total_packets = word_of_int n,
       request_id = word_of_int rid, total_requests = word_of_int tr,
       data_size = word_of_int ?d\<rparr> # prepare_packets (i + 1) n (rem - ?d) rid tr"
      using lt by (simp add: prepare_packets.simps [of i n rem rid tr] Let_def)
    have rem': "0 \<le> rem - ?d"
      using "1.prems" by (simp add: MAX_PACKET_SIZE_def)
    have d: "uint (word_of_int ?d :: 32 word) = ?d"
      using "1.prems" by (simp add: MAX_PACKET_SIZE_def uint_word_of_int take_bit_int_eq_self)
    have "sum_list (map (uint \<circ> data_size) (prepare_packets (i + 1) n (rem - ?d) rid tr))
        = min (rem - ?d) (MAX_PACKET_SIZE * (n - (i + 1)))"
      using "1.IH" [OF lt refl rem'] lt
      by (cases "MAX_PACKET_SIZE < rem") (simp_all add: comp_def)
    then have "sum_list (map (uint \<circ> data_size) (prepare_packets i n rem rid tr))
        = ?d + min (rem - ?d) (MAX_PACKET_SIZE * (n - (i + 1)))"
      by (simp only: unfold list.map sum_list.Cons comp_apply Packet.simps d)
    also have "\<dots> = min rem (MAX_PACKET_SIZE * (n - i))"
      using lt "1.prems" by (auto simp: MAX_PACKET_SIZE_def min_def algebra_simps)
    finally show ?thesis .
  qed
qed


lemma length_send_packets: "length (send_packets clock k ps) = length ps"
  by (induction ps arbitrary: k) simp_all

lemma nth_send_packets:
  "j < length ps \<Longrightarrow> send_packets clock k ps ! j = (ps ! j)\<lparr>timestamp := clock (k + j)\<rparr>"
proof (induction ps arbitrary: k j)
  case Nil
  then show ?case by simp
next
  case (Cons p ps)
  then show ?case
    by (cases j) simp_all
qed

lemma data_size_send_packets:
  "map (uint \<circ> data_size) (send_packets clock k ps) = map (uint \<circ> data_size) ps"
  by (induction ps arbitrary: k) simp_all

lemma send_request_in_range:
  assumes pos: "0 < bytes_to_send" and fits: "bytes_to_send + MAX_PACKET_SIZE \<le> INT_MAX"
  defines "n \<equiv> (bytes_to_send + MAX_PACKET_SIZE - 1) div MAX_PACKET_SIZE"
  shows "\<exists>pkts. send_request clock bytes_to_send rid tr = Inr pkts \<and>
     int (length pkts) = n \<and>
     MAX_PACKET_SIZE * (n - 1) < bytes_to_send \<and> bytes_to_send \<le> MAX_PACKET_SIZE * n \<and>
     (\<forall>k < length pkts.
        packet_id (pkts ! k) = of_nat k \<and>
        total_packets (pkts ! k) = of_nat (length pkts) \<and>
        timestamp (pkts ! k) = clock k \<and>
        uint (data_size (pkts ! k))
          = (if Suc k < length pkts then MAX_PACKET_SIZE
             else bytes_to_send - MAX_PACKET_SIZE * int k)) \<and>
     sum_list (map (uint \<circ> data_size) pkts) = bytes_to_send"
proof -
  let ?pkts = "send_packets clock 0 (prepare_packets 0 n bytes_to_send rid tr)"
  have npos: "0 < n"
    using pos by (simp add: n_def MAX_PACKET_SIZE_def)
  have n_eq: "n = (bytes_to_send + 1399) div 1400"
    by (simp add: n_def MAX_PACKET_SIZE_def)
  have split: "bytes_to_send + 1399 = 1400 * n + (bytes_to_send + 1399) mod 1400"
    by (simp only: n_eq mult_div_mod_eq)
  have bounds: "0 \<le> (bytes_to_send + 1399) mod 1400" "(bytes_to_send + 1399) mod 1400 < 1400"
    by simp_all
  have lo: "MAX_PACKET_SIZE * (n - 1) < bytes_to_send"
    using split bounds by (simp add: MAX_PACKET_SIZE_def)
  have hi: "bytes_to_send \<le> MAX_PACKET_SIZE * n"
    using split bounds by (simp add: MAX_PACKET_SIZE_def)
  have eq: "send_request clock bytes_to_send rid tr = Inr ?pkts"
    using pos fits npos
    by (simp add: send_request_def tdiv_nonneg n_def Let_def MAX_PACKET_SIZE_def)
  have len: "int (length ?pkts) = n"
    using npos by (simp add: length_send_packets length_prepare_packets)
  have each: "packet_id (?pkts ! k) = of_nat k \<and>
        total_packets (?pkts ! k) = of_nat (length ?pkts) \<and>
        timestamp (?pkts ! k) = clock k \<and>
        uint (data_size (?pkts ! k))
          = (if Suc k < length ?pkts then MAX_PACKET_SIZE
             else bytes_to_send - MAX_PACKET_SIZE * int k)" if k: "k < length ?pkts" for k
  proof -
    from k have k': "k < nat (n - 0)"
      by (simp add: length_send_packets length_prepare_packets)
    have kn: "int k \<le> n - 1"
      using k' by simp
    have nth: "?pkts ! k =
        \<lparr>timestamp = clock k, packet_id = word_of_int (int k), total_packets = word_of_int n,
         request_id = word_of_int rid, total_requests = word_of_int tr,
         data_size = word_of_int (min MAX_PACKET_SIZE
           (max 0 (bytes_to_send - MAX_PACKET_SIZE * int k)))\<rparr>"
      using k' pos
      by (simp add: nth_send_packets length_prepare_packets nth_prepare_packets)
    have "MAX_PACKET_SIZE * int k \<le> MAX_PACKET_SIZE * (n - 1)"
      using kn by (simp add: MAX_PACKET_SIZE_def)
    with lo have rest: "0 < bytes_to_send - MAX_PACKET_SIZE * int k"
      by simp
    have size: "min MAX_PACKET_SIZE (max 0 (bytes_to_send - MAX_PACKET_SIZE * int k))
        = (if Suc k < length ?pkts then MAX_PACKET_SIZE
           else bytes_to_send - MAX_PACKET_SIZE * int k)"
    proof (cases "Suc k < length ?pkts")
      case True
      then have "int k + 1 \<le> n - 1"
        using len by simp
      then have "MAX_PACKET_SIZE * (int k + 1) \<le> MAX_PACKET_SIZE * (n - 1)"
        by (simp add: MAX_PACKET_SIZE_def)
      with lo True show ?thesis
        by (simp add: algebra_simps)
    next
      case False
      then have "n = int k + 1"
        using len k by simp
      with hi have "bytes_to_send \<le> MAX_PACKET_SIZE * (int k + 1)"
        by simp
      then have "bytes_to_send - MAX_PACKET_SIZE * int k \<le> MAX_PACKET_SIZE"
        by (simp add: MAX_PACKET_SIZE_def)
      with rest False show ?thesis
        by simp
    qed
    have "uint (word_of_int (min MAX_PACKET_SIZE
           (max 0 (bytes_to_send - MAX_PACKET_SIZE * int k))) :: 32 word)
        = min MAX_PACKET_SIZE (max 0 (bytes_to_send - MAX_PACKET_SIZE * int k))"
      by (simp add: MAX_PACKET_SIZE_def uint_word_of_int take_bit_int_eq_self min_def max_def)
    with size have p4: "uint (data_size (?pkts ! k))
          = (if Suc k < length ?pkts then MAX_PACKET_SIZE
             else bytes_to_send - MAX_PACKET_SIZE * int k)"
      by (simp only: nth Packet.select_convs)
    have p1: "packet_id (?pkts ! k) = of_nat k"
      by (simp only: nth Packet.select_convs of_int_of_nat_eq)
    have "(word_of_int n :: 32 word) = of_nat (length ?pkts)"
      using len by (metis of_int_of_nat_eq)
    then have p2: "total_packets (?pkts ! k) = of_nat (length ?pkts)"
      by (simp only: nth Packet.select_convs)
    have p3: "timestamp (?pkts ! k) = clock k"
      by (simp only: nth Packet.select_convs)
    from p1 p2 p3 p4 show ?thesis
      by blast
  qed
  have "sum_list (map (uint \<circ> data_size) ?pkts) = min bytes_to_send (MAX_PACKET_SIZE * (n - 0))"
    using pos npos by (simp only: data_size_send_packets) (rule sum_prepare_packets, simp_all)
  with hi have total: "sum_list (map (uint \<circ> data_size) ?pkts) = bytes_to_send"
    by simp
  from eq len lo hi each total show ?thesis
    by blast
qed

lemma send_request_3000:
  "send_request clock 3000 0 1 =
     Inr [\<lparr>timestamp = clock 0, packet_id = 0, total_packets = 3, request_id = 0,
             total_requests = 1, data_size = 1400\<rparr>,
          \<lparr>timestamp = clock 1, packet_id = 1, total_packets = 3, request_id = 0,
             total_requests = 1, data_size = 1400\<rparr>,
          \<lparr>timestamp = clock 2, packet_id = 2, total_packets = 3, request_id = 0,
             total_requests = 1, data_size = 200\<rparr>]"
  by (simp add: send_request_def INT_MAX_def MAX_PACKET_SIZE_def tdiv_def prepare_packets.simps
        Let_def numeral_2_eq_2)

text \<open>
  Claim C7, at the failing input. For a payload of \<open>INT_MAX\<close> bytes the sum
  \<^verbatim>\<open>bytes_to_send + MAX_PACKET_SIZE - 1\<close> of line 28 leaves the range of \<^verbatim>\<open>int\<close>,
  and no fragment is sent.
\<close>

theorem overflowing_payload_size:
  "send_request clock 2147483647 0 1 = Inl SignedOverflow"
  by (simp add: send_request_def INT_MAX_def MAX_PACKET_SIZE_def)

section \<open>Properties of the stream tracker\<close>

text \<open>
  The payload loop never reads more than it was asked for, and what it has received and
  what remains always add up to the declared size. When the socket delivers enough bytes
  without closing, in bursts of any sizes, the loop ends with nothing remaining.
\<close>

lemma recv_result:
  "0 < len \<Longrightarrow> recv sock len = (n, sock') \<Longrightarrow>
   n \<le> len \<and>
   (0 < n \<longrightarrow> (\<forall>a \<in> set sock. 0 < a) \<longrightarrow>
      (\<forall>a \<in> set sock'. 0 < a) \<and> sum_list sock' = sum_list sock - n)"
  by (cases sock) (auto simp: recv_def split: if_splits)

lemma recv_positive:
  "0 < len \<Longrightarrow> sock \<noteq> [] \<Longrightarrow> \<forall>a \<in> set sock. 0 < a \<Longrightarrow> 0 < fst (recv sock len)"
  by (cases sock) (auto simp: recv_def)

lemma recv_data_accumulates:
  "0 \<le> remaining \<Longrightarrow> recv_data remaining total_received sock = (r, t, sock') \<Longrightarrow>
   0 \<le> r \<and> r + t = remaining + total_received"
proof (induction remaining total_received sock rule: recv_data.induct)
  case (1 remaining total_received sock)
  show ?case
  proof (cases "remaining > 0")
    case False
    then have "recv_data remaining total_received sock = (remaining, total_received, sock)"
      by (simp add: recv_data.simps [of remaining total_received sock])
    with "1.prems" show ?thesis
      by simp
  next
    case True
    obtain n s1 where rc: "recv sock remaining = (n, s1)"
      by (cases "recv sock remaining")
    from recv_result [OF True rc] have le: "n \<le> remaining"
      by simp
    show ?thesis
    proof (cases "n \<le> 0")
      case True
      with \<open>remaining > 0\<close> rc "1.prems" show ?thesis
        by (simp add: recv_data.simps [of remaining total_received sock])
    next
      case False
      with \<open>remaining > 0\<close> rc "1.prems"
      have "recv_data (remaining - n) (total_received + n) s1 = (r, t, sock')"
        by (simp add: recv_data.simps [of remaining total_received sock])
      with "1.IH" [OF \<open>remaining > 0\<close> rc [symmetric] False] le show ?thesis
        by simp
    qed
  qed
qed

lemma recv_data_completes:
  "0 \<le> remaining \<Longrightarrow> \<forall>a \<in> set sock. 0 < a \<Longrightarrow> remaining \<le> sum_list sock \<Longrightarrow>
   fst (recv_data remaining total_received sock) = 0"
proof (induction remaining total_received sock rule: recv_data.induct)
  case (1 remaining total_received sock)
  show ?case
  proof (cases "remaining > 0")
    case False
    then have "recv_data remaining total_received sock = (remaining, total_received, sock)"
      by (simp add: recv_data.simps [of remaining total_received sock])
    with False "1.prems" show ?thesis
      by simp
  next
    case True
    obtain n s1 where rc: "recv sock remaining = (n, s1)"
      by (cases "recv sock remaining")
    from True "1.prems" have "sock \<noteq> []"
      by auto
    from recv_positive [OF True this "1.prems"(2)] rc have npos: "0 < n"
      by simp
    from recv_result [OF True rc] npos "1.prems"(2)
    have facts: "n \<le> remaining" "\<forall>a \<in> set s1. 0 < a" "sum_list s1 = sum_list sock - n"
      by simp_all
    have "fst (recv_data (remaining - n) (total_received + n) s1) = 0"
      using "1.IH" [OF True rc [symmetric]] npos facts "1.prems" by simp
    with True rc npos show ?thesis
      by (simp add: recv_data.simps [of remaining total_received sock])
  qed
qed

text \<open>
  A payload that stays incomplete ends the connection and changes nothing; the outer
  loop goes on to the next connection. Records that are complete stay so through every
  later request and connection, and \<^verbatim>\<open>write_results\<close> writes a row for each.
\<close>

lemma handle_client_incomplete:
  "stream_running s \<Longrightarrow> 0 < header_bytes e \<Longrightarrow>
   0 < fst (recv_data (sint (hdr_data_size (header e))) 0 (payload_sock e)) \<Longrightarrow>
   handle_client s (e # es) = s"
  by (cases "recv_data (sint (hdr_data_size (header e))) 0 (payload_sock e)") simp

lemma accept_loop_after_incomplete:
  "stream_running s \<Longrightarrow> 0 < header_bytes e \<Longrightarrow>
   0 < fst (recv_data (sint (hdr_data_size (header e))) 0 (payload_sock e)) \<Longrightarrow>
   accept_loop s (Some (e # es) # cs) = accept_loop s cs"
  by (simp only: accept_loop.simps handle_client_incomplete option.case) simp

lemma map_of_stream_assign:
  "map_of (stream_assign k f reqs) = (map_of reqs)(k \<mapsto> f (stream_at reqs k))"
  by (simp add: stream_assign_def update_conv')

lemma stream_at_assign:
  "stream_at (stream_assign k f reqs) k = f (stream_at reqs k)"
  by (simp add: stream_at_def map_of_stream_assign)

lemma store_request_keeps_complete:
  assumes "map_of (stream_reqs s) k = Some r" and "stream_is_complete r"
  shows "\<exists>r'. map_of (stream_reqs (store_request s e)) k = Some r' \<and> stream_is_complete r'"
  using assms
  by (cases "k = hdr_request_id (header e)")
    (simp_all add: store_request_def Let_def map_of_stream_assign stream_at_assign)

lemma handle_client_keeps_complete:
  "map_of (stream_reqs s) k = Some r \<Longrightarrow> stream_is_complete r \<Longrightarrow>
   \<exists>r'. map_of (stream_reqs (handle_client s es)) k = Some r' \<and> stream_is_complete r'"
proof (induction es arbitrary: s r)
  case Nil
  then show ?case by simp
next
  case (Cons e es)
  from store_request_keeps_complete [OF Cons.prems]
  obtain r1 where r1: "map_of (stream_reqs (store_request s e)) k = Some r1" "stream_is_complete r1"
    by blast
  from Cons.IH [OF r1] Cons.prems r1 show ?case
    by (auto simp: Let_def split: prod.splits)
qed

lemma accept_loop_keeps_complete:
  "map_of (stream_reqs s) k = Some r \<Longrightarrow> stream_is_complete r \<Longrightarrow>
   \<exists>r'. map_of (stream_reqs (accept_loop s cs)) k = Some r' \<and> stream_is_complete r'"
proof (induction cs arbitrary: s r)
  case Nil
  then show ?case by simp
next
  case (Cons c cs)
  show ?case
  proof (cases c)
    case None
    with Cons show ?thesis by simp
  next
    case (Some events)
    from handle_client_keeps_complete [OF Cons.prems]
    obtain r1 where "map_of (stream_reqs (handle_client s events)) k = Some r1"
      "stream_is_complete r1"
      by blast
    from Cons.IH [OF this] Cons.prems Some show ?thesis
      by simp
  qed
qed

lemma only_complete_written:
  assumes "stream_write_results True reqs = Some rows" and "(k, a, b) \<in> set rows"
  shows "\<exists>r. (k, r) \<in> set reqs \<and> stream_is_complete r"
  using assms by (auto simp: stream_write_results_def)

lemma complete_is_written:
  assumes "map_of reqs k = Some r" and "stream_is_complete r"
  shows "\<exists>rows. stream_write_results True reqs = Some rows \<and>
     (k, header_recv_time r - send_time r, data_complete_time r - header_recv_time r) \<in> set rows"
proof -
  from assms(1) have "(k, r) \<in> set (sort_key (\<lambda>(k, stats). sint k) reqs)"
    by (simp add: map_of_SomeD)
  with assms(2) have "(k, r) \<in> set (filter (\<lambda>(k, stats). stream_is_complete stats)
      (sort_key (\<lambda>(k, stats). sint k) reqs))"
    by simp
  then show ?thesis
    by (force simp: stream_write_results_def)
qed

text \<open>
  Claim C8, at the failing input. A header declares \<open>2\<^sup>3\<^sup>1\<close> bytes and the peer
  closes right after it. \<^verbatim>\<open>int remaining = header.data_size\<close> is negative, the
  payload loop is not entered, \<^verbatim>\<open>remaining > 0\<close> is false, and the request is
  recorded as complete with no payload byte received.
\<close>

theorem oversized_data_size_accepted:
  "recv_data (sint (2147483648 :: 32 word)) 0 [] = (- 2147483648, 0, []) \<and>
   stream_reqs (handle_client stream_client_init
      [\<lparr>header_bytes = 24,
          header = \<lparr>hdr_timestamp = 5, hdr_request_id = 0, hdr_total_requests = 2,
                     hdr_data_size = 2147483648\<rparr>,
          header_time = 10, payload_sock = [], complete_time = 12\<rparr>])
     = [(0, \<lparr>send_time = 5, header_recv_time = 10, data_complete_time = 12,
              stream_is_complete = True\<rparr>)]"
  by (simp add: stream_eval)

end
